theory Spec2Isabelle
  imports Complex_Main "HOL-Library.AList"
begin

section \<open>MooseGesture: a shallow embedding of \<open>moosegesture.py\<close>\<close>

text \<open>
  The module turns a list of 2D points into a list of direction tokens (the keypad
  integers 1, 2, 3, 4, 6, 7, 8, 9) and matches such lists against templates by edit
  distance. Numbers are modelled as mathematical reals (Python's ints are exact, its
  floats are read as the reals they denote, \<open>sqrt\<close>, \<open>atan\<close> and \<open>pi\<close> as the
  real functions and constant); exceptions are values of the type \<open>error\<close>; the two
  module-level globals are the record \<open>config\<close>, passed explicitly.
\<close>

subsection \<open>Errors and Python values\<close>

datatype error = TypeError | ValueError | IndexError | KeyError | AssertionError

text \<open>Sequencing of computations that may raise.\<close>

definition err_bind :: "error + 'a \<Rightarrow> ('a \<Rightarrow> error + 'b) \<Rightarrow> error + 'b" where
  "err_bind m f = (case m of Inl e \<Rightarrow> Inl e | Inr v \<Rightarrow> f v)"

text \<open>\<open>xs[i]\<close> for a non-negative index: IndexError out of range.\<close>

definition idx :: "'a list \<Rightarrow> nat \<Rightarrow> error + 'a" where
  "idx xs i = (if i < length xs then Inr (xs ! i) else Inl IndexError)"

text \<open>A \<open>for\<close> loop over a list of values whose body may raise.\<close>

fun for_loop :: "('a \<Rightarrow> 's \<Rightarrow> error + 's) \<Rightarrow> 'a list \<Rightarrow> 's \<Rightarrow> error + 's" where
  "for_loop body [] s = Inr s"
| "for_loop body (x # xs) s = err_bind (body x s) (for_loop body xs)"

text \<open>
  A loop that appends one value per element, or a list comprehension
  \<open>[f(x) for x in xs]\<close>, whose \<open>f\<close> may raise.
\<close>

fun map_err :: "('a \<Rightarrow> error + 'b) \<Rightarrow> 'a list \<Rightarrow> error + 'b list" where
  "map_err f [] = Inr []"
| "map_err f (x # xs) = err_bind (f x) (\<lambda>y. err_bind (map_err f xs) (\<lambda>ys. Inr (y # ys)))"

subsection \<open>Configuration: the globals \<open>_MIN_SEG_LEN\<close> and \<open>_MIN_P2P_DISTANCE\<close>\<close>

record config =
  MIN_SEG_LEN :: real
  MIN_P2P_DISTANCE :: real

definition default_config :: config where
  "default_config = \<lparr>MIN_SEG_LEN = 60, MIN_P2P_DISTANCE = 10\<rparr>"

definition setMinStrokeLen :: "real \<Rightarrow> config \<Rightarrow> config" where
  "setMinStrokeLen val c =
     (let c1 = c\<lparr>MIN_SEG_LEN := val\<rparr>
      in if val < MIN_P2P_DISTANCE c1 then c1\<lparr>MIN_P2P_DISTANCE := val\<rparr> else c1)"

definition getMinStrokeLen :: "config \<Rightarrow> real" where
  "getMinStrokeLen c = MIN_SEG_LEN c"

subsection \<open>Direction tokens\<close>

definition DOWNLEFT :: int where "DOWNLEFT = 1"
definition DOWN :: int where "DOWN = 2"
definition DOWNRIGHT :: int where "DOWNRIGHT = 3"
definition LEFT :: int where "LEFT = 4"
definition RIGHT :: int where "RIGHT = 6"
definition UPLEFT :: int where "UPLEFT = 7"
definition UP :: int where "UP = 8"
definition UPRIGHT :: int where "UPRIGHT = 9"

lemmas direction_defs =
  DOWNLEFT_def DOWN_def DOWNRIGHT_def LEFT_def RIGHT_def UPLEFT_def UP_def UPRIGHT_def

subsection \<open>Geometry: \<open>_getDistance\<close>, \<open>getAngle\<close>, \<open>_getDirection\<close>\<close>

type_synonym point = "real \<times> real"

definition getDistance :: "point \<Rightarrow> point \<Rightarrow> real" where
  "getDistance pos1 pos2 =
     (let xdist = fst pos1 - fst pos2;
          ydist = snd pos1 - snd pos2
      in sqrt (xdist * xdist + ydist * ydist))"

definition getAngle :: "point \<Rightarrow> point \<Rightarrow> real" where
  "getAngle origin pos =
     (let x = fst pos - fst origin;
          y = snd pos - snd origin
      in if x = 0 then (if y \<le> 0 then 90 else 270)
         else
           let slope = y / x;
               angle = arctan slope * (180 / pi);
               angle =
                 (if y \<ge> 0 \<and> x \<ge> 0 then (90 - angle) + 270
                  else if y \<ge> 0 \<and> x < 0 then - angle + 180
                  else if y < 0 \<and> x < 0 then (90 - angle) + 90
                  else if y < 0 \<and> x \<ge> 0 then - angle
                  else angle)
           in if angle = 360 then 0 else angle)"

text \<open>
  The \<open>if\<close>/\<open>elif\<close> chains of \<open>_getDirection\<close>, as a function of the mode and of the
  angle it has computed. A chain that ends without a \<open>return\<close> gives Python's \<open>None\<close>.
\<close>

definition getDirection_of_angle :: "string \<Rightarrow> real \<Rightarrow> int option" where
  "getDirection_of_angle mode angle =
     (if mode = ''all'' then
        (if angle \<ge> 337.5 \<or> angle < 22.5 then Some RIGHT
         else if angle \<ge> 22.5 \<and> angle < 67.5 then Some UPRIGHT
         else if angle \<ge> 67.5 \<and> angle < 112.5 then Some UP
         else if angle \<ge> 112.5 \<and> angle < 157.5 then Some UPLEFT
         else if angle \<ge> 157.5 \<and> angle < 202.5 then Some LEFT
         else if angle \<ge> 202.5 \<and> angle < 247.5 then Some DOWNLEFT
         else if angle \<ge> 247.5 \<and> angle < 292.5 then Some DOWN
         else if angle \<ge> 292.5 \<and> angle < 337.5 then Some DOWNRIGHT
         else None)
      else if mode = ''cross'' then
        (if angle \<ge> 315 \<or> angle < 45 then Some RIGHT
         else if angle \<ge> 45 \<and> angle < 135 then Some UP
         else if angle \<ge> 135 \<and> angle < 225 then Some LEFT
         else if angle \<ge> 225 \<and> angle < 315 then Some DOWN
         else None)
      else if mode = ''diagonal'' then
        (if angle \<ge> 0 \<and> angle < 90 then Some UPRIGHT
         else if angle \<ge> 90 \<and> angle < 180 then Some UPLEFT
         else if angle \<ge> 180 \<and> angle < 270 then Some DOWNLEFT
         else if angle \<ge> 270 then Some DOWNRIGHT
         else None)
      else None)"

definition getDirection :: "point \<Rightarrow> point \<Rightarrow> string \<Rightarrow> error + int option" where
  "getDirection pos1 pos2 mode =
     (if mode \<notin> set [''all'', ''cross'', ''diagonal''] then Inl AssertionError
      else Inr (getDirection_of_angle mode (getAngle pos1 pos2)))"

subsection \<open>Segmentation: \<open>_identifyStrokes\<close>\<close>

text \<open>
  The first loop: the list \<open>distances\<close> of the distances between consecutive points.
  \<open>range(len(points) - 1)\<close> is empty for fewer than two points.
\<close>

definition pairDistances :: "point list \<Rightarrow> error + real list" where
  "pairDistances points =
     map_err (\<lambda>i. err_bind (idx points i) (\<lambda>p.
                  err_bind (idx points (i + 1)) (\<lambda>q. Inr (getDistance p q))))
       [0..<length points - 1]"

text \<open>
  The \<open>while i < curSegPoint + 1\<close> loop that checks that the sub-steps of a candidate
  segment go in one direction. Its state is \<open>i\<close>, \<open>pointToPointDistance\<close>, \<open>nextPoint\<close>,
  \<open>curDir\<close> and \<open>direction\<close>; it returns \<open>(consistent, direction)\<close>. \<open>nextPoint\<close> is
  incremented at the head of every iteration, so the state carries its value before
  the increment. An iteration either leaves the loop (\<open>break\<close>) or increases \<open>i\<close>.
\<close>

function checkDirections ::
  "config \<Rightarrow> point list \<Rightarrow> string \<Rightarrow> real list \<Rightarrow> nat \<Rightarrow>
   nat \<Rightarrow> real \<Rightarrow> nat \<Rightarrow> int option \<Rightarrow> int option \<Rightarrow> error + (bool \<times> int option)" where
  "checkDirections cfg points mode distances curSegPoint i pointToPointDistance nextPoint curDir direction =
     (if i < curSegPoint + 1 then
        (if i + (nextPoint + 1) \<ge> length points then Inr (True, direction)
         else
           (case idx distances i of
              Inl e \<Rightarrow> Inl e
            | Inr d \<Rightarrow>
                if pointToPointDistance + d < MIN_P2P_DISTANCE cfg then
                  checkDirections cfg points mode distances curSegPoint
                    (i + 1) (pointToPointDistance + d) (nextPoint + 1) curDir direction
                else
                  (case idx points i of
                     Inl e \<Rightarrow> Inl e
                   | Inr p \<Rightarrow>
                       (case idx points (i + (nextPoint + 1)) of
                          Inl e \<Rightarrow> Inl e
                        | Inr q \<Rightarrow>
                            (case getDirection p q mode of
                               Inl e \<Rightarrow> Inl e
                             | Inr direction' \<Rightarrow>
                                 if curDir = None then
                                   checkDirections cfg points mode distances curSegPoint
                                     (i + (nextPoint + 1)) 0 0 direction' direction'
                                 else if direction' \<noteq> curDir then Inr (False, direction')
                                 else
                                   checkDirections cfg points mode distances curSegPoint
                                     (i + (nextPoint + 1)) 0 0 curDir direction')))))
      else Inr (True, direction))"
  by pat_completeness auto
termination
  by (relation "measure (\<lambda>(cfg, points, mode, distances, curSegPoint, i, rest). curSegPoint + 1 - i)") auto

declare checkDirections.simps [simp del]

text \<open>
  The \<open>for curSegPoint in range(startSegPoint, len(points) - 1)\<close> loop over the values
  still to visit, with the running \<open>segmentDist\<close>. It returns
  \<open>(consistent, direction, curSegPoint)\<close>; \<open>curSegPoint\<close> is the value the loop variable
  holds when the loop is left (the outer loop only starts it on a non-empty range, given
  here as the initial value for the empty one).
\<close>

fun scanSegment ::
  "config \<Rightarrow> point list \<Rightarrow> string \<Rightarrow> real list \<Rightarrow> nat \<Rightarrow>
   nat list \<Rightarrow> real \<Rightarrow> nat \<Rightarrow> error + (bool \<times> int option \<times> nat)" where
  "scanSegment cfg points mode distances startSegPoint [] segmentDist curSegPoint =
     Inr (True, None, curSegPoint)"
| "scanSegment cfg points mode distances startSegPoint (c # cs) segmentDist curSegPoint =
     (case idx distances c of
        Inl e \<Rightarrow> Inl e
      | Inr d \<Rightarrow>
          if segmentDist + d \<ge> MIN_SEG_LEN cfg then
            (case checkDirections cfg points mode distances c startSegPoint 0 0 None None of
               Inl e \<Rightarrow> Inl e
             | Inr (consistent, direction) \<Rightarrow> Inr (consistent, direction, c))
          else scanSegment cfg points mode distances startSegPoint cs (segmentDist + d) c)"

text \<open>\<open>strokeSegments[-1][1] = curSegPoint\<close>, under the guard \<open>len(strokeSegments)\<close>.\<close>

definition extendLast :: "(nat \<times> nat) list \<Rightarrow> nat \<Rightarrow> (nat \<times> nat) list" where
  "extendLast strokeSegments curSegPoint =
     (if strokeSegments \<noteq> [] then
        strokeSegments[length strokeSegments - 1 := (fst (last strokeSegments), curSegPoint)]
      else strokeSegments)"

text \<open>The body of the outer loop, for one \<open>startSegPoint\<close>, on the pair of output lists.\<close>

definition strokeStep ::
  "config \<Rightarrow> point list \<Rightarrow> string \<Rightarrow> real list \<Rightarrow> nat \<Rightarrow>
   int list \<times> (nat \<times> nat) list \<Rightarrow> error + (int list \<times> (nat \<times> nat) list)" where
  "strokeStep cfg points mode distances startSegPoint st =
     (case st of (strokes, strokeSegments) \<Rightarrow>
        (case scanSegment cfg points mode distances startSegPoint
                [startSegPoint..<length points - 1] 0 startSegPoint of
           Inl e \<Rightarrow> Inl e
         | Inr (consistent, direction, curSegPoint) \<Rightarrow>
             if \<not> consistent then Inr (strokes, strokeSegments)
             else
               (case direction of
                  Some d \<Rightarrow>
                    if strokes = [] \<or> (strokes \<noteq> [] \<and> last strokes \<noteq> d) then
                      Inr (strokes @ [d], strokeSegments @ [(startSegPoint, curSegPoint)])
                    else Inr (strokes, extendLast strokeSegments curSegPoint)
                | None \<Rightarrow> Inr (strokes, extendLast strokeSegments curSegPoint))))"

definition identifyStrokes ::
  "config \<Rightarrow> point list \<Rightarrow> string \<Rightarrow> error + (int list \<times> (nat \<times> nat) list)" where
  "identifyStrokes cfg points mode =
     err_bind (pairDistances points) (\<lambda>distances.
       for_loop (strokeStep cfg points mode distances) [0..<length points - 1] ([], []))"

definition getGesture :: "config \<Rightarrow> point list \<Rightarrow> string \<Rightarrow> error + int list" where
  "getGesture cfg points mode =
     (case identifyStrokes cfg points mode of Inl e \<Rightarrow> Inl e | Inr r \<Rightarrow> Inr (fst r))"

definition getSegments :: "config \<Rightarrow> point list \<Rightarrow> string \<Rightarrow> error + (nat \<times> nat) list" where
  "getSegments cfg points mode =
     (case identifyStrokes cfg points mode of Inl e \<Rightarrow> Inl e | Inr r \<Rightarrow> Inr (snd r))"

subsection \<open>Edit distance: \<open>levenshteinDistance\<close>\<close>

text \<open>
  \<open>matrix\<close> starts as the flat list \<open>list(range(len1 + 1)) * (len2 + 1)\<close> of ints; the
  first loop overwrites its first \<open>len2 + 1\<close> entries by rows (lists of ints), the other
  entries stay ints. An entry is therefore an int or a row; subscripting an int raises
  TypeError, an index out of range IndexError.
\<close>

datatype cell = Num int | Row "int list"

definition set_item :: "'a list \<Rightarrow> nat \<Rightarrow> 'a \<Rightarrow> error + 'a list" where
  "set_item xs i v = (if i < length xs then Inr (xs[i := v]) else Inl IndexError)"

definition get_item2 :: "cell list \<Rightarrow> nat \<Rightarrow> nat \<Rightarrow> error + int" where
  "get_item2 matrix i j =
     err_bind (idx matrix i)
       (\<lambda>r. case r of Num n \<Rightarrow> Inl TypeError | Row row \<Rightarrow> idx row j)"

definition set_item2 :: "cell list \<Rightarrow> nat \<Rightarrow> nat \<Rightarrow> int \<Rightarrow> error + cell list" where
  "set_item2 matrix i j v =
     err_bind (idx matrix i)
       (\<lambda>r. case r of
               Num n \<Rightarrow> Inl TypeError
             | Row row \<Rightarrow> err_bind (set_item row j v) (\<lambda>row'. Inr (matrix[i := Row row'])))"

text \<open>The body of the two nested loops, for the indices \<open>i\<close> and \<open>j\<close>.\<close>

definition levenshteinCell :: "'a list \<Rightarrow> 'a list \<Rightarrow> nat \<Rightarrow> nat \<Rightarrow> cell list \<Rightarrow> error + cell list" where
  "levenshteinCell s1 s2 i j matrix =
     err_bind (idx s1 j) (\<lambda>a.
     err_bind (idx s2 i) (\<lambda>b.
     err_bind (get_item2 matrix (i + 1) j) (\<lambda>left.
     err_bind (get_item2 matrix i (j + 1)) (\<lambda>up.
     err_bind (get_item2 matrix i j) (\<lambda>diag.
       if a = b then set_item2 matrix (i + 1) (j + 1) (min (left + 1) (min (up + 1) diag))
       else set_item2 matrix (i + 1) (j + 1) (min (left + 1) (min (up + 1) (diag + 1))))))))"

definition levenshteinDistance :: "'a list \<Rightarrow> 'a list \<Rightarrow> error + int" where
  "levenshteinDistance s1 s2 =
     (let len1 = length s1;
          len2 = length s2;
          matrix = map Num (concat (replicate (len2 + 1) (map int [0..<len1 + 1])))
      in err_bind
           (for_loop (\<lambda>i matrix. set_item matrix i (Row (map int [i..<i + len1 + 1])))
              [0..<len2 + 1] matrix)
           (\<lambda>matrix.
              err_bind
                (for_loop (\<lambda>i. for_loop (levenshteinCell s1 s2 i) [0..<len1]) [0..<len2] matrix)
                (\<lambda>matrix. get_item2 matrix len2 len1)))"

text \<open>
  The edit distance by its recurrence, for comparison with the code: the distance to
  the empty sequence is the length, and otherwise the minimum of a deletion, an
  insertion and a substitution (free when the two first tokens are equal).
\<close>

fun edit_distance :: "'a list \<Rightarrow> 'a list \<Rightarrow> nat" where
  "edit_distance [] ys = length ys"
| "edit_distance (x # xs) [] = Suc (length xs)"
| "edit_distance (x # xs) (y # ys) =
     min (edit_distance xs (y # ys) + 1)
       (min (edit_distance (x # xs) ys + 1) (edit_distance xs ys + (if x = y then 0 else 1)))"

text \<open>
  The table the loops build, for the proof: once the cells before \<open>(i, j)\<close> are written,
  cell \<open>(r, c)\<close> holds the distance of the prefixes of lengths \<open>c\<close> and \<open>r\<close> if it is in
  row 0, in column 0 or was written, and its initial value \<open>r + c\<close> otherwise.
\<close>

definition cellv :: "'a list \<Rightarrow> 'a list \<Rightarrow> nat \<Rightarrow> nat \<Rightarrow> int" where
  "cellv s1 s2 r c = int (edit_distance (rev (take c s1)) (rev (take r s2)))"

definition entry :: "'a list \<Rightarrow> 'a list \<Rightarrow> nat \<Rightarrow> nat \<Rightarrow> nat \<Rightarrow> nat \<Rightarrow> int" where
  "entry s1 s2 i j r c =
     (if r = 0 \<or> c = 0 \<or> r \<le> i \<or> (r = i + 1 \<and> c \<le> j) then cellv s1 s2 r c else int (r + c))"

definition matrix0 :: "'a list \<Rightarrow> 'a list \<Rightarrow> cell list" where
  "matrix0 s1 s2 = map Num (concat (replicate (length s2 + 1) (map int [0..<length s1 + 1])))"

definition tab :: "'a list \<Rightarrow> 'a list \<Rightarrow> nat \<Rightarrow> nat \<Rightarrow> cell list" where
  "tab s1 s2 i j =
     map (\<lambda>r. Row (map (entry s1 s2 i j r) [0..<Suc (length s1)])) [0..<Suc (length s2)]
     @ drop (Suc (length s2)) (matrix0 s1 s2)"

definition init_tab :: "'a list \<Rightarrow> 'a list \<Rightarrow> nat \<Rightarrow> cell list" where
  "init_tab s1 s2 k =
     map (\<lambda>r. Row (map (\<lambda>c. int (r + c)) [0..<Suc (length s1)])) [0..<k] @ drop k (matrix0 s1 s2)"

subsection \<open>Matching: \<open>findClosestMatchingGesture\<close>\<close>

text \<open>
  The elements of the lists handed to the matcher are Python values: ints (the tokens
  \<open>getGesture\<close> returns) or strings. \<open>''.join(xs)\<close> concatenates strings and raises
  TypeError on any other item.
\<close>

datatype pyval = PInt int | PStr string

fun str_join :: "pyval list \<Rightarrow> error + string" where
  "str_join [] = Inr []"
| "str_join (PStr s # xs) = err_bind (str_join xs) (\<lambda>r. Inr (s @ r))"
| "str_join (PInt n # xs) = Inl TypeError"

text \<open>
  \<open>int(s)\<close> for an ASCII string, base 10, as Python 3 reads it: whitespace around the
  literal is dropped, one sign may come first, and the digits may be grouped by single
  underscores; anything else raises ValueError.
\<close>

definition is_space :: "char \<Rightarrow> bool" where
  "is_space c = (c \<in> set [CHR 0x20, CHR 0x09, CHR 0x0A, CHR 0x0B, CHR 0x0C, CHR 0x0D,
                           CHR 0x1C, CHR 0x1D, CHR 0x1E, CHR 0x1F])"

definition is_digit :: "char \<Rightarrow> bool" where
  "is_digit c = (48 \<le> (of_char c :: nat) \<and> (of_char c :: nat) \<le> 57)"

fun valid_digits :: "string \<Rightarrow> bool" where
  "valid_digits [] = False"
| "valid_digits [c] = is_digit c"
| "valid_digits (c # d # cs) =
     (is_digit c \<and> (if d = CHR ''_'' then valid_digits cs else valid_digits (d # cs)))"

definition digits_value :: "string \<Rightarrow> int" where
  "digits_value s =
     fold (\<lambda>c acc. if c = CHR ''_'' then acc else acc * 10 + (int (of_char c) - 48)) s 0"

definition py_int :: "string \<Rightarrow> error + int" where
  "py_int s =
     (let t = rev (dropWhile is_space (rev (dropWhile is_space s)));
          sb = (case t of
                  [] \<Rightarrow> (1, [])
                | c # r \<Rightarrow> if c = CHR ''-'' then (- 1, r)
                           else if c = CHR ''+'' then (1, r) else (1, t))
      in if valid_digits (snd sb) then Inr (fst sb * digits_value (snd sb)) else Inl ValueError)"

text \<open>\<open>min(xs)\<close>: ValueError on the empty sequence.\<close>

fun py_min :: "int list \<Rightarrow> error + int" where
  "py_min [] = Inl ValueError"
| "py_min (x # xs) = Inr (fold min xs x)"

text \<open>
  The dictionary \<open>distances\<close> is an association list from a distance to the templates
  at that distance, in the order of their insertion. The body of the loop over the
  templates:
\<close>

definition add_distance ::
  "string \<Rightarrow> string \<Rightarrow> (int \<times> string list) list \<Rightarrow> error + (int \<times> string list) list" where
  "add_distance strokes g distances =
     err_bind (levenshteinDistance strokes g)
       (\<lambda>dist. case map_of distances dist of
                  Some gs \<Rightarrow> Inr (AList.update dist (gs @ [g]) distances)
                | None \<Rightarrow> Inr (AList.update dist [g] distances))"

text \<open>\<open>sys.maxsize\<close>, the default tolerance (on a 64-bit platform).\<close>

definition maxsize :: int where
  "maxsize = 2 ^ 63 - 1"

text \<open>
  The statements after the templates are joined and made unique: the loop that fills
  \<open>distances\<close>, the smallest key, and the test of the list stored under it.
\<close>

definition matchJoined :: "string \<Rightarrow> string list \<Rightarrow> int \<Rightarrow> error + int list option" where
  "matchJoined strokes gestureList tolerance =
     err_bind (for_loop (add_distance strokes) gestureList []) (\<lambda>distances.
     err_bind (py_min (map fst distances)) (\<lambda>smallestKey.
       case map_of distances smallestKey of
         None \<Rightarrow> Inl KeyError
       | Some gs \<Rightarrow>
           if length gs = 1 \<and> smallestKey \<le> tolerance
           then err_bind (map_err py_int gs) (\<lambda>r. Inr (Some r))
           else Inr None))"

text \<open>
  \<open>list(frozenset(gestureList))\<close> keeps one copy of each joined template, in an order
  Python does not specify; \<open>remdups\<close> fixes one (by \<open>matchJoined_order\<close> below the
  result is the same for every order).
\<close>

definition findClosestMatchingGesture ::
  "pyval list \<Rightarrow> pyval list list \<Rightarrow> int \<Rightarrow> error + int list option" where
  "findClosestMatchingGesture strokes gestureList tolerance =
     (if length gestureList = 0 then Inr None
      else
        err_bind (str_join strokes) (\<lambda>strokes.
        err_bind (map_err str_join gestureList) (\<lambda>gestureList.
          matchJoined strokes (remdups gestureList) tolerance)))"

text \<open>
  For the proofs: the distance of a joined template to the joined candidate, and the
  dictionary the loop has built after the templates \<open>gs\<close>.
\<close>

definition dist_to :: "string \<Rightarrow> string \<Rightarrow> int" where
  "dist_to strokes g = int (edit_distance (rev strokes) (rev g))"

definition groups_of :: "string \<Rightarrow> string list \<Rightarrow> int \<Rightarrow> string list option" where
  "groups_of strokes gs k =
     (if filter (\<lambda>g. dist_to strokes g = k) gs = [] then None
      else Some (filter (\<lambda>g. dist_to strokes g = k) gs))"

subsection \<open>Test inputs\<close>

text \<open>
  An L-shape drawn right and then down, in steps of 20 pixels, each leg 100 pixels
  long; and one whose down leg is 80 pixels long and is followed by a step of one
  pixel to the left.
\<close>

definition Lshape :: "point list" where
  "Lshape = [(0, 0), (20, 0), (40, 0), (60, 0), (80, 0), (100, 0),
             (100, 20), (100, 40), (100, 60), (100, 80), (100, 100)]"

definition Lshape_tail :: "point list" where
  "Lshape_tail = [(0, 0), (20, 0), (40, 0), (60, 0), (80, 0), (100, 0),
             (100, 20), (100, 40), (100, 60), (100, 80), (99, 80)]"

subsection \<open>The loop invariant of the segmentation\<close>

text \<open>
  Before the iteration for start index \<open>k\<close>, with \<open>n = len(points) - 1\<close>: no token is
  repeated, both lists have one length, the ranges start at increasing indices below
  \<open>k\<close>, and each range \<open>(start, end)\<close> has \<open>start \<le> end < n\<close>.
\<close>

definition strokes_inv :: "nat \<Rightarrow> nat \<Rightarrow> int list \<times> (nat \<times> nat) list \<Rightarrow> bool" where
  "strokes_inv n k st =
     (distinct_adj (fst st) \<and> length (fst st) = length (snd st) \<and>
      sorted_wrt (<) (map fst (snd st)) \<and>
      (\<forall>r \<in> set (snd st). fst r \<le> snd r \<and> fst r < k \<and> snd r < n))"

section \<open>Properties\<close>

subsection \<open>Configuration\<close>

text \<open>
  C9 (configuration clamp). \<open>setMinStrokeLen v\<close> sets the minimum stroke length to \<open>v\<close>;
  the minimum point-to-point distance becomes \<open>v\<close> exactly when \<open>v\<close> is below its
  current value and is unchanged otherwise; afterwards the point-to-point minimum does
  not exceed the minimum stroke length.
\<close>

theorem setMinStrokeLen_clamp:
  "MIN_SEG_LEN (setMinStrokeLen v c) = v \<and>
   MIN_P2P_DISTANCE (setMinStrokeLen v c) =
     (if v < MIN_P2P_DISTANCE c then v else MIN_P2P_DISTANCE c) \<and>
   MIN_P2P_DISTANCE (setMinStrokeLen v c) \<le> MIN_SEG_LEN (setMinStrokeLen v c)"
  by (simp add: setMinStrokeLen_def Let_def)

subsection \<open>Angles\<close>

lemma degrees_bounds: "- 90 < arctan s * (180 / pi) \<and> arctan s * (180 / pi) < 90"
proof -
  have a: "- (pi / 2) < arctan s" "arctan s < pi / 2"
    by (rule arctan_lbound, rule arctan_ubound)
  have p: "0 < 180 / pi" by simp
  have "(- (pi / 2)) * (180 / pi) < arctan s * (180 / pi)"
    using a(1) p by (rule mult_strict_right_mono)
  moreover have "arctan s * (180 / pi) < (pi / 2) * (180 / pi)"
    using a(2) p by (rule mult_strict_right_mono)
  ultimately show ?thesis by simp
qed

lemma degrees_sign:
  "(0 \<le> arctan s * (180 / pi)) = (0 \<le> s)"
  "(arctan s * (180 / pi) = 0) = (s = 0)"
proof -
  have p: "0 < 180 / pi" by simp
  show "(0 \<le> arctan s * (180 / pi)) = (0 \<le> s)"
  proof (cases "0 \<le> s")
    case True
    then have "0 \<le> arctan s" by (simp add: zero_le_arctan_iff)
    then have "0 \<le> arctan s * (180 / pi)" using p by (intro mult_nonneg_nonneg) simp_all
    with True show ?thesis by simp
  next
    case False
    then have "arctan s < 0" by (simp add: arctan_less_zero_iff)
    then have "arctan s * (180 / pi) < 0" using p by (rule mult_neg_pos)
    with False show ?thesis by simp
  qed
  show "(arctan s * (180 / pi) = 0) = (s = 0)"
    by (simp add: arctan_eq_zero_iff)
qed

lemma getAngle_range: "0 \<le> getAngle origin pos \<and> getAngle origin pos < 360"
proof -
  define x where "x = fst pos - fst origin"
  define y where "y = snd pos - snd origin"
  define d where "d = arctan (y / x) * (180 / pi)"
  have b: "- 90 < d" "d < 90" using degrees_bounds[of "y / x"] by (simp_all only: d_def)
  have s: "(0 \<le> d) = (0 \<le> y / x)" "(d = 0) = (y / x = 0)"
    using degrees_sign[of "y / x"] by (simp_all only: d_def)
  have g: "getAngle origin pos =
     (if x = 0 then (if y \<le> 0 then 90 else 270)
      else let angle = (if y \<ge> 0 \<and> x \<ge> 0 then (90 - d) + 270
                  else if y \<ge> 0 \<and> x < 0 then - d + 180
                  else if y < 0 \<and> x < 0 then (90 - d) + 90
                  else if y < 0 \<and> x \<ge> 0 then - d
                  else d)
           in if angle = 360 then 0 else angle)"
    unfolding getAngle_def Let_def x_def y_def d_def by (rule refl)
  show ?thesis
  proof (cases "x = 0")
    case True
    then show ?thesis by (simp add: g)
  next
    case False
    then show ?thesis using b s unfolding g Let_def
      by (auto simp: zero_le_divide_iff not_le not_less)
  qed
qed

lemma getAngle_vertical:
  "fst pos - fst origin = 0 \<Longrightarrow>
   getAngle origin pos = (if snd pos - snd origin \<le> 0 then 90 else 270)"
  by (simp add: getAngle_def)

text \<open>
  C6 (angle computation). For every pair of points \<open>getAngle\<close> returns a value in
  \<open>[0, 360)\<close>; when the x-displacement is zero it returns exactly 90 if the
  y-displacement is at most zero (the zero-length case included) and exactly 270
  otherwise.
\<close>

theorem getAngle_spec:
  "0 \<le> getAngle origin pos \<and> getAngle origin pos < 360 \<and>
   (fst pos - fst origin = 0 \<longrightarrow>
      getAngle origin pos = (if snd pos - snd origin \<le> 0 then 90 else 270))"
  using getAngle_range [of origin pos] getAngle_vertical [of pos origin] by blast

theorem getAngle_spec_witness:
  "getAngle (3, 5) (3, 2) = 90 \<and> getAngle (3, 5) (3, 5) = 90 \<and> getAngle (3, 5) (3, 7) = 270"
  using getAngle_spec [of "(3, 5)" "(3, 2)"] getAngle_spec [of "(3, 5)" "(3, 5)"]
    getAngle_spec [of "(3, 5)" "(3, 7)"]
  by simp

subsection \<open>Direction buckets\<close>

lemma getDirection_of_angle_keypad:
  "getDirection_of_angle m b = None \<or>
   (\<exists>t. getDirection_of_angle m b = Some t \<and> t \<in> {1, 2, 3, 4, 6, 7, 8, 9})"
  by (simp add: getDirection_of_angle_def direction_defs)

lemma getDirection_of_angle_all:
  "0 \<le> a \<Longrightarrow> a < 360 \<Longrightarrow>
   (\<exists>t. getDirection_of_angle ''all'' a = Some t \<and> t \<in> {1, 2, 3, 4, 6, 7, 8, 9}) \<and>
   (getDirection_of_angle ''all'' a = Some RIGHT) = (337.5 \<le> a \<or> a < 22.5)"
  by (simp add: getDirection_of_angle_def direction_defs)

lemma getDirection_of_angle_cross:
  "0 \<le> a \<Longrightarrow> a < 360 \<Longrightarrow>
   (\<exists>t. getDirection_of_angle ''cross'' a = Some t \<and> t \<in> {2, 4, 6, 8})"
  by (simp add: getDirection_of_angle_def direction_defs)

lemma getDirection_of_angle_diagonal:
  "0 \<le> a \<Longrightarrow> a < 360 \<Longrightarrow>
   (\<exists>t. getDirection_of_angle ''diagonal'' a = Some t \<and> t \<in> {1, 3, 7, 9})"
  by (simp add: getDirection_of_angle_def direction_defs)

text \<open>
  C5 (direction-bucket totality). For every angle in \<open>[0, 360)\<close> the classifier
  returns a token of the mode: one of the eight keypad values in mode \<open>all\<close>, one of
  2, 4, 6, 8 in mode \<open>cross\<close>, one of 1, 3, 7, 9 in mode \<open>diagonal\<close>. In mode \<open>all\<close>
  the token is RIGHT exactly on \<open>[337.5, 360) \<union> [0, 22.5)\<close>. Whatever the mode and
  the angle, a returned token is one of 1, 2, 3, 4, 6, 7, 8, 9.
\<close>

theorem getDirection_of_angle_total:
  assumes "0 \<le> a" and "a < 360"
  shows "(\<exists>t. getDirection_of_angle ''all'' a = Some t \<and> t \<in> {1, 2, 3, 4, 6, 7, 8, 9}) \<and>
         (\<exists>t. getDirection_of_angle ''cross'' a = Some t \<and> t \<in> {2, 4, 6, 8}) \<and>
         (\<exists>t. getDirection_of_angle ''diagonal'' a = Some t \<and> t \<in> {1, 3, 7, 9}) \<and>
         (getDirection_of_angle ''all'' a = Some RIGHT) = (337.5 \<le> a \<or> a < 22.5) \<and>
         (getDirection_of_angle m b = None \<or>
          (\<exists>t. getDirection_of_angle m b = Some t \<and> t \<in> {1, 2, 3, 4, 6, 7, 8, 9}))"
  using getDirection_of_angle_all [OF assms] getDirection_of_angle_cross [OF assms]
    getDirection_of_angle_diagonal [OF assms] getDirection_of_angle_keypad [of m b]
  by blast

theorem getDirection_of_angle_total_witness:
  "getDirection_of_angle ''all'' 22.5 = Some UPRIGHT \<and>
   getDirection_of_angle ''cross'' 22.5 = Some RIGHT \<and>
   getDirection_of_angle ''diagonal'' 22.5 = Some UPRIGHT \<and>
   getDirection_of_angle ''all'' 22.5 \<noteq> Some RIGHT"
proof -
  have h: "(0::real) \<le> 22.5" "(22.5::real) < 360" by simp_all
  show ?thesis
    using getDirection_of_angle_total [OF h, of "''all''" 0]
    by (simp add: getDirection_of_angle_def direction_defs)
qed

text \<open>
  As the angle of two points is in \<open>[0, 360)\<close>, \<open>_getDirection\<close> returns one of the
  eight tokens on every pair of points, for each of the three modes.
\<close>

lemma getDirection_token:
  assumes "mode \<in> set [''all'', ''cross'', ''diagonal'']"
  shows "\<exists>t. getDirection pos1 pos2 mode = Inr (Some t) \<and> t \<in> {1, 2, 3, 4, 6, 7, 8, 9}"
proof -
  have r: "0 \<le> getAngle pos1 pos2" "getAngle pos1 pos2 < 360"
    using getAngle_range [of pos1 pos2] by simp_all
  from assms consider "mode = ''all''" | "mode = ''cross''" | "mode = ''diagonal''" by auto
  then show ?thesis
  proof cases
    case 1
    then show ?thesis using getDirection_of_angle_all [OF r] by (simp add: getDirection_def)
  next
    case 2
    from getDirection_of_angle_cross [OF r] obtain t where
      "getDirection_of_angle ''cross'' (getAngle pos1 pos2) = Some t" "t \<in> {2, 4, 6, 8}" by blast
    then show ?thesis using 2 by (auto simp: getDirection_def)
  next
    case 3
    from getDirection_of_angle_diagonal [OF r] obtain t where
      "getDirection_of_angle ''diagonal'' (getAngle pos1 pos2) = Some t" "t \<in> {1, 3, 7, 9}" by blast
    then show ?thesis using 3 by (auto simp: getDirection_def)
  qed
qed

subsection \<open>Loops\<close>

lemma for_loop_append:
  "for_loop body (xs @ ys) s = err_bind (for_loop body xs s) (for_loop body ys)"
  by (induction xs arbitrary: s) (auto simp: err_bind_def split: sum.splits)

lemma for_loop_upt_Suc:
  "for_loop body [0..<Suc n] s = err_bind (for_loop body [0..<n] s) (body n)"
  by (simp add: for_loop_append err_bind_def split: sum.splits)

lemma for_loop_upt_inv:
  assumes "P 0 s0"
    and "\<And>k s s'. k < n \<Longrightarrow> P k s \<Longrightarrow> body k s = Inr s' \<Longrightarrow> P (Suc k) s'"
    and "for_loop body [0..<n] s0 = Inr s'"
  shows "P n s'"
  using assms(2,3)
proof (induction n arbitrary: s')
  case 0
  then show ?case using assms(1) by simp
next
  case (Suc n)
  from Suc.prems(2) obtain s1 where
    a: "for_loop body [0..<n] s0 = Inr s1" and b: "body n s1 = Inr s'"
    by (auto simp: for_loop_upt_Suc err_bind_def simp del: upt_Suc split: sum.splits)
  have "P n s1" using Suc.IH [OF _ a] Suc.prems(1) by simp
  then show ?case using Suc.prems(1) [of n s1 s'] b by simp
qed

lemma for_loop_total:
  "(\<And>x s. \<exists>s'. body x s = Inr s') \<Longrightarrow> \<exists>s'. for_loop body xs s = Inr s'"
proof (induction xs arbitrary: s)
  case Nil
  then show ?case by simp
next
  case (Cons x xs)
  obtain s1 where "body x s = Inr s1" using Cons.prems by blast
  then show ?case using Cons.IH [OF Cons.prems] by (simp add: err_bind_def)
qed

lemma map_err_Inr: "\<forall>x \<in> set xs. f x = Inr (g x) \<Longrightarrow> map_err f xs = Inr (map g xs)"
  by (induction xs) (simp_all add: err_bind_def)

subsection \<open>Segmentation returns\<close>

lemma pairDistances_Inr:
  "pairDistances points =
     Inr (map (\<lambda>i. getDistance (points ! i) (points ! (i + 1))) [0..<length points - 1])"
  unfolding pairDistances_def
  by (rule map_err_Inr) (auto simp: idx_def err_bind_def)

lemma checkDirections_total:
  "mode \<in> set [''all'', ''cross'', ''diagonal''] \<Longrightarrow> curSegPoint < length distances \<Longrightarrow>
   \<exists>r. checkDirections cfg points mode distances curSegPoint i p n cd dr = Inr r"
proof (induction cfg points mode distances curSegPoint i p n cd dr rule: checkDirections.induct)
  case (1 cfg points mode distances curSegPoint i p n cd dr)
  show ?case
    using "1.IH" "1.prems"
    by (subst checkDirections.simps) (auto simp: idx_def getDirection_def split: sum.splits)
qed

lemma scanSegment_total:
  "mode \<in> set [''all'', ''cross'', ''diagonal''] \<Longrightarrow> \<forall>c \<in> set cs. c < length distances \<Longrightarrow>
   \<exists>r. scanSegment cfg points mode distances s cs sd cur0 = Inr r"
proof (induction cs arbitrary: sd cur0)
  case Nil
  show ?case by (rule exI [of _ "(True, None, cur0)"]) simp
next
  case (Cons c cs)
  from Cons.prems obtain r where
    "checkDirections cfg points mode distances c s 0 0 None None = Inr r"
    using checkDirections_total [of mode c distances cfg points s 0 0 None None] by auto
  then show ?case using Cons by (auto simp: idx_def split: prod.splits)
qed

lemma strokeStep_total:
  "mode \<in> set [''all'', ''cross'', ''diagonal''] \<Longrightarrow> length distances = length points - 1 \<Longrightarrow>
   \<exists>r. strokeStep cfg points mode distances s st = Inr r"
proof -
  assume m: "mode \<in> set [''all'', ''cross'', ''diagonal'']" and l: "length distances = length points - 1"
  have "\<forall>c \<in> set [s..<length points - 1]. c < length distances" using l by simp
  from scanSegment_total [OF m this] obtain r where
    "scanSegment cfg points mode distances s [s..<length points - 1] 0 s = Inr r" by blast
  then show ?thesis
    by (cases st; cases r) (auto simp: strokeStep_def split: option.splits)
qed

lemma identifyStrokes_total:
  "mode \<in> set [''all'', ''cross'', ''diagonal''] \<Longrightarrow>
   \<exists>st. identifyStrokes cfg points mode = Inr st"
  unfolding identifyStrokes_def pairDistances_Inr err_bind_def sum.case
  by (rule for_loop_total, rule strokeStep_total) simp_all

lemma getGesture_total:
  assumes "mode \<in> set [''all'', ''cross'', ''diagonal'']"
  shows "\<exists>g. getGesture cfg points mode = Inr g"
  using identifyStrokes_total [OF assms, of cfg points] by (auto simp: getGesture_def)

lemma getSegments_total:
  assumes "mode \<in> set [''all'', ''cross'', ''diagonal'']"
  shows "\<exists>segs. getSegments cfg points mode = Inr segs"
  using identifyStrokes_total [OF assms, of cfg points] by (auto simp: getSegments_def)

subsection \<open>Segmentation keeps its invariant\<close>

lemma scanSegment_cur:
  "scanSegment cfg points mode distances s cs sd cur0 = Inr (consistent, direction, cur)
   \<Longrightarrow> cur \<in> set cs \<or> (cur = cur0 \<and> direction = None \<and> consistent)"
  by (induction cs arbitrary: sd cur0) (auto split: sum.splits if_splits prod.splits)

lemma extendLast_snoc:
  "strokeSegments \<noteq> [] \<Longrightarrow>
   extendLast strokeSegments c = butlast strokeSegments @ [(fst (last strokeSegments), c)]"
  by (cases strokeSegments rule: rev_cases) (simp_all add: extendLast_def)

lemma extendLast_inv:
  assumes "strokes_inv n k (strokes, segs)" and "k \<le> c" and "c < n"
  shows "strokes_inv n (Suc k) (strokes, extendLast segs c)"
proof (cases segs rule: rev_cases)
  case Nil
  then show ?thesis using assms by (simp add: strokes_inv_def extendLast_def)
next
  case (snoc ys y)
  have e: "extendLast (ys @ [y]) c = ys @ [(fst y, c)]" by (simp add: extendLast_snoc)
  show ?thesis using assms unfolding snoc e strokes_inv_def
    by (auto simp: sorted_wrt_append less_Suc_eq)
qed

lemma strokeStep_inv:
  assumes "strokes_inv (length points - 1) s st" and "s < length points - 1"
    and "strokeStep cfg points mode distances s st = Inr st'"
  shows "strokes_inv (length points - 1) (Suc s) st'"
proof -
  obtain strokes segs where st: "st = (strokes, segs)" by (cases st)
  from assms(3) obtain consistent direction cur where
    sc: "scanSegment cfg points mode distances s [s..<length points - 1] 0 s = Inr (consistent, direction, cur)"
    by (auto simp: strokeStep_def st split: sum.splits)
  from scanSegment_cur [OF sc] assms(2) have cur: "s \<le> cur" "cur < length points - 1" by auto
  have weak: "strokes_inv (length points - 1) (Suc s) st"
    using assms(1) by (auto simp: strokes_inv_def less_Suc_eq)
  have ext: "strokes_inv (length points - 1) (Suc s) (strokes, extendLast segs cur)"
    using extendLast_inv [OF assms(1)[unfolded st] cur] .
  have app: "strokes_inv (length points - 1) (Suc s) (strokes @ [d], segs @ [(s, cur)])"
    if "strokes = [] \<or> last strokes \<noteq> d" for d
    using assms(1) cur that unfolding st strokes_inv_def
    by (auto simp: distinct_adj_append_iff sorted_wrt_append less_Suc_eq)
  show ?thesis
    using assms(3) sc weak ext app unfolding strokeStep_def st
    by (auto split: if_splits option.splits)
qed

lemma identifyStrokes_inv:
  "identifyStrokes cfg points mode = Inr st \<Longrightarrow>
   strokes_inv (length points - 1) (length points - 1) st"
proof -
  assume a: "identifyStrokes cfg points mode = Inr st"
  have i: "strokes_inv (length points - 1) 0 ([], [])" by (simp add: strokes_inv_def)
  obtain distances where d: "pairDistances points = Inr distances"
    using pairDistances_Inr by blast
  show ?thesis
  proof (rule for_loop_upt_inv [where P = "strokes_inv (length points - 1)"
        and body = "strokeStep cfg points mode distances", OF i])
    show "for_loop (strokeStep cfg points mode distances)
            [0..<length points - 1] ([], []) = Inr st"
      using a by (simp add: identifyStrokes_def d err_bind_def)
  next
    fix k s s'
    assume "k < length points - 1" "strokes_inv (length points - 1) k s"
      "strokeStep cfg points mode distances k s = Inr s'"
    then show "strokes_inv (length points - 1) (Suc k) s'"
      using strokeStep_inv by blast
  qed
qed

subsection \<open>The test inputs, evaluated\<close>

lemma getDistance_horizontal: "getDistance (x1, y) (x2, y) = \<bar>x1 - x2\<bar>"
  by (simp add: getDistance_def)

lemma getDistance_vertical: "getDistance (x, y1) (x, y2) = \<bar>y1 - y2\<bar>"
  by (simp add: getDistance_def)

lemma getDirection_right: "x1 < x2 \<Longrightarrow> getDirection (x1, y) (x2, y) ''all'' = Inr (Some RIGHT)"
  by (simp add: getDirection_def getAngle_def getDirection_of_angle_def)

lemma getDirection_down: "y1 < y2 \<Longrightarrow> getDirection (x, y1) (x, y2) ''all'' = Inr (Some DOWN)"
  by (simp add: getDirection_def getAngle_def getDirection_of_angle_def)

lemma pairDistances_Lshape:
  "pairDistances Lshape = Inr [20, 20, 20, 20, 20, 20, 20, 20, 20, 20]"
  by (simp add: pairDistances_Inr Lshape_def getDistance_horizontal getDistance_vertical upt_rec)

lemma length_Lshape: "length Lshape = 11" by (simp add: Lshape_def)

lemma Lshape_strokes:
  "identifyStrokes default_config Lshape ''all'' = Inr ([6, 2], [(0, 4), (5, 9)])"
  unfolding identifyStrokes_def pairDistances_Lshape err_bind_def sum.case
  by (simp add: strokeStep_def length_Lshape upt_rec idx_def default_config_def checkDirections.simps
      Lshape_def getDirection_right getDirection_down RIGHT_def DOWN_def err_bind_def extendLast_def)

lemma pairDistances_Lshape_tail:
  "pairDistances Lshape_tail = Inr [20, 20, 20, 20, 20, 20, 20, 20, 20, 1]"
  by (simp add: pairDistances_Inr Lshape_tail_def getDistance_horizontal getDistance_vertical upt_rec)

lemma length_Lshape_tail: "length Lshape_tail = 11" by (simp add: Lshape_tail_def)

lemma Lshape_tail_strokes:
  "identifyStrokes default_config Lshape_tail ''all'' = Inr ([6, 2], [(0, 4), (5, 9)])"
  unfolding identifyStrokes_def pairDistances_Lshape_tail err_bind_def sum.case
  by (simp add: strokeStep_def length_Lshape_tail upt_rec idx_def default_config_def checkDirections.simps
      Lshape_tail_def getDirection_right getDirection_down RIGHT_def DOWN_def err_bind_def extendLast_def)

subsection \<open>Deduplication\<close>

lemma getGesture_distinct_adj:
  assumes "getGesture cfg points mode = Inr g"
  shows "\<forall>i. Suc i < length g \<longrightarrow> g ! i \<noteq> g ! Suc i"
proof -
  from assms obtain st where st: "identifyStrokes cfg points mode = Inr st" and g: "g = fst st"
    by (auto simp: getGesture_def split: sum.splits)
  from identifyStrokes_inv [OF st] have "distinct_adj g"
    by (simp add: strokes_inv_def g)
  then show ?thesis by (simp add: distinct_adj_conv_nth)
qed

text \<open>
  C7 (deduplication invariant). Whenever \<open>getGesture\<close> returns a direction sequence,
  no two consecutive tokens of it are equal; and for each of the three modes it does
  return one, whatever the points and the configuration.
\<close>

theorem getGesture_no_repeats:
  "(\<forall>g. getGesture cfg points mode = Inr g \<longrightarrow>
        (\<forall>i. Suc i < length g \<longrightarrow> g ! i \<noteq> g ! Suc i)) \<and>
   (mode \<in> set [''all'', ''cross'', ''diagonal''] \<longrightarrow>
        (\<exists>g. getGesture cfg points mode = Inr g))"
  using getGesture_distinct_adj [of cfg points mode] getGesture_total [of mode cfg points]
  by blast

theorem getGesture_no_repeats_witness:
  "getGesture default_config Lshape ''all'' = Inr [6, 2] \<and> [6, 2 :: int] ! 0 \<noteq> [6, 2] ! Suc 0"
  using getGesture_no_repeats [of default_config Lshape "''all''"]
  by (simp add: getGesture_def Lshape_strokes)

subsection \<open>Ranges\<close>

lemma getSegments_ranges:
  assumes "getSegments cfg points mode = Inr segs"
  shows "(\<forall>r \<in> set segs. fst r \<le> snd r) \<and> sorted (map fst segs)"
proof -
  from assms obtain st where st: "identifyStrokes cfg points mode = Inr st" and g: "segs = snd st"
    by (auto simp: getSegments_def split: sum.splits)
  from identifyStrokes_inv [OF st]
  have i: "sorted_wrt (<) (map fst segs)" "\<forall>r \<in> set segs. fst r \<le> snd r"
    by (simp_all add: strokes_inv_def g)
  from i(1) have "sorted (map fst segs)" by (rule strict_sorted_imp_sorted)
  with i(2) show ?thesis by simp
qed

text \<open>
  C8 (range monotonicity). Whenever \<open>getSegments\<close> returns a list of ranges, every
  range \<open>(start, end)\<close> has \<open>start \<le> end\<close> and the start indices are non-decreasing
  along the list; and for each of the three modes it does return one.
\<close>

theorem getSegments_monotone:
  "(\<forall>segs. getSegments cfg points mode = Inr segs \<longrightarrow>
        (\<forall>r \<in> set segs. fst r \<le> snd r) \<and> sorted (map fst segs)) \<and>
   (mode \<in> set [''all'', ''cross'', ''diagonal''] \<longrightarrow>
        (\<exists>segs. getSegments cfg points mode = Inr segs))"
  using getSegments_ranges [of cfg points mode] getSegments_total [of mode cfg points]
  by blast

theorem getSegments_monotone_witness:
  "getSegments default_config Lshape ''all'' = Inr [(0, 4), (5, 9)] \<and>
   (0::nat) \<le> 4 \<and> (5::nat) \<le> 9 \<and> sorted [0, 5 :: nat]"
  using getSegments_monotone [of default_config Lshape "''all''"]
  by (simp add: getSegments_def Lshape_strokes)

subsection \<open>Extension of the last stroke by a start index without direction\<close>

lemma scanSegment_never:
  "\<forall>c \<in> set cs. c < length distances \<Longrightarrow>
   \<forall>k < length cs. sd + sum_list (map (\<lambda>j. distances ! j) (take (Suc k) cs)) < MIN_SEG_LEN cfg \<Longrightarrow>
   scanSegment cfg points mode distances s cs sd cur0 = Inr (True, None, last (cur0 # cs))"
proof (induction cs arbitrary: sd cur0)
  case Nil
  then show ?case by simp
next
  case (Cons c cs)
  have c: "idx distances c = Inr (distances ! c)" using Cons.prems(1) by (simp add: idx_def)
  have lt: "sd + distances ! c < MIN_SEG_LEN cfg" using Cons.prems(2) [rule_format, of 0] by simp
  have "\<forall>k < length cs. (sd + distances ! c) + sum_list (map (\<lambda>j. distances ! j) (take (Suc k) cs))
          < MIN_SEG_LEN cfg"
  proof (intro allI impI)
    fix k assume "k < length cs"
    then show "(sd + distances ! c) + sum_list (map (\<lambda>j. distances ! j) (take (Suc k) cs))
          < MIN_SEG_LEN cfg"
      using Cons.prems(2) [rule_format, of "Suc k"] by (simp add: add.assoc)
  qed
  from Cons.IH [OF _ this, of c] Cons.prems(1)
  have "scanSegment cfg points mode distances s cs (sd + distances ! c) c = Inr (True, None, last (c # cs))"
    by simp
  then show ?case using c lt by simp
qed

lemma strokeStep_no_direction:
  assumes "strokeSegments \<noteq> []"
    and "scanSegment cfg points mode distances s [s..<length points - 1] 0 s = Inr (True, None, e)"
  shows "strokeStep cfg points mode distances s (strokes, strokeSegments) =
           Inr (strokes, butlast strokeSegments @ [(fst (last strokeSegments), e)])"
  using assms by (simp add: strokeStep_def extendLast_snoc)

lemma scanSegment_below_threshold:
  assumes "s < length points - 1" and "length distances = length points - 1"
    and "\<forall>k. s \<le> k \<and> k < length points - 1 \<longrightarrow>
           sum_list (map (\<lambda>j. distances ! j) [s..<Suc k]) < MIN_SEG_LEN cfg"
  shows "scanSegment cfg points mode distances s [s..<length points - 1] 0 s =
           Inr (True, None, length points - 2)"
proof -
  let ?n = "length points - 1"
  have 1: "\<forall>c \<in> set [s..<?n]. c < length distances" using assms(2) by simp
  have 2: "\<forall>k < length [s..<?n].
             0 + sum_list (map (\<lambda>j. distances ! j) (take (Suc k) [s..<?n])) < MIN_SEG_LEN cfg"
  proof (intro allI impI)
    fix k assume k: "k < length [s..<?n]"
    then have "take (Suc k) [s..<?n] = [s..<Suc (s + k)]" by (simp add: take_upt)
    then show "0 + sum_list (map (\<lambda>j. distances ! j) (take (Suc k) [s..<?n])) < MIN_SEG_LEN cfg"
      using assms(3) [rule_format, of "s + k"] k by simp
  qed
  have "last (s # [s..<?n]) = length points - 2" using assms(1) by (auto simp: last_upt numeral_2_eq_2)
  with scanSegment_never [OF 1 2, of points mode s s] show ?thesis by simp
qed

lemma getSegments_tail:
  assumes "getSegments cfg points mode = Inr segs" and "segs \<noteq> []" and "2 \<le> length points"
    and "getDistance (points ! (length points - 2)) (points ! (length points - 1)) < MIN_SEG_LEN cfg"
  shows "snd (last segs) = length points - 2"
proof -
  define m where "m = length points - 2"
  define D where "D = map (\<lambda>i. getDistance (points ! i) (points ! (i + 1))) [0..<length points - 1]"
  have n: "length points - 1 = Suc m" using assms(3) by (simp add: m_def)
  have lD: "length D = length points - 1" by (simp add: D_def)
  have Dm: "D ! m = getDistance (points ! m) (points ! (length points - 1))"
    using n by (simp add: D_def del: upt_Suc)
  from assms(1) obtain st where st: "identifyStrokes cfg points mode = Inr st" and g: "segs = snd st"
    by (auto simp: getSegments_def split: sum.splits)
  from st have "for_loop (strokeStep cfg points mode D) [0..<length points - 1] ([], []) = Inr st"
    unfolding identifyStrokes_def pairDistances_Inr err_bind_def sum.case D_def .
  then have "for_loop (strokeStep cfg points mode D) [0..<Suc m] ([], []) = Inr st"
    by (simp only: n)
  then obtain st1 where
    st1: "strokeStep cfg points mode D m st1 = Inr st"
    by (auto simp: for_loop_upt_Suc err_bind_def simp del: upt_Suc split: sum.splits)
  obtain strokes1 segs1 where p: "st1 = (strokes1, segs1)" by (cases st1)
  have "\<forall>k. m \<le> k \<and> k < length points - 1 \<longrightarrow>
           sum_list (map (\<lambda>j. D ! j) [m..<Suc k]) < MIN_SEG_LEN cfg"
  proof (intro allI impI)
    fix k assume "m \<le> k \<and> k < length points - 1"
    then have "k = m" using n by simp
    then show "sum_list (map (\<lambda>j. D ! j) [m..<Suc k]) < MIN_SEG_LEN cfg"
      using assms(4) Dm by (simp add: m_def)
  qed
  from scanSegment_below_threshold [OF _ lD this, of mode] n
  have sc: "scanSegment cfg points mode D m [m..<length points - 1] 0 m = Inr (True, None, m)"
    by (simp add: m_def)
  from st1 have e: "st = (strokes1, extendLast segs1 m)"
    by (simp add: strokeStep_def p sc [unfolded One_nat_def])
  then have "segs1 \<noteq> []" using assms(2) g by (auto simp: extendLast_def)
  then show ?thesis using e g by (simp add: extendLast_snoc m_def)
qed

text \<open>
  C10 (implicit tail extension). In an iteration of the outer loop that finds a stroke
  already emitted and whose scan resolves no direction (consistent, \<open>direction\<close> still
  \<open>None\<close>), the end index of the last emitted range is overwritten by the scan's last
  \<open>curSegPoint\<close>, nothing else changes. A start index whose accumulated distance stays
  below the minimum stroke length up to the end of the input is such a scan, and its
  last \<open>curSegPoint\<close> is the last pair index \<open>len(points) - 2\<close>. So, when the last two
  points are closer than the minimum stroke length, the last range \<open>getSegments\<close>
  returns ends at \<open>len(points) - 2\<close>.
\<close>

theorem tail_extension:
  "(strokeSegments \<noteq> [] \<and>
    scanSegment cfg points mode distances s [s..<length points - 1] 0 s = Inr (True, None, e) \<longrightarrow>
      strokeStep cfg points mode distances s (strokes, strokeSegments) =
        Inr (strokes, butlast strokeSegments @ [(fst (last strokeSegments), e)])) \<and>
   (s < length points - 1 \<and> length distances = length points - 1 \<and>
    (\<forall>k. s \<le> k \<and> k < length points - 1 \<longrightarrow>
           sum_list (map (\<lambda>j. distances ! j) [s..<Suc k]) < MIN_SEG_LEN cfg) \<longrightarrow>
      scanSegment cfg points mode distances s [s..<length points - 1] 0 s =
        Inr (True, None, length points - 2)) \<and>
   (getSegments cfg points mode = Inr segs \<and> segs \<noteq> [] \<and> 2 \<le> length points \<and>
    getDistance (points ! (length points - 2)) (points ! (length points - 1)) < MIN_SEG_LEN cfg \<longrightarrow>
      snd (last segs) = length points - 2)"
  using strokeStep_no_direction [of strokeSegments cfg points mode distances s e strokes]
    scanSegment_below_threshold [of s points distances cfg mode]
    getSegments_tail [of cfg points mode segs]
  by blast

theorem tail_extension_witness:
  "strokeStep default_config Lshape_tail ''all'' [20, 20, 20, 20, 20, 20, 20, 20, 20, 1] 7
       ([6, 2], [(0, 4), (5, 8)]) =
     Inr ([6, 2], [(0, 4), (5, 9)]) \<and>
   getSegments default_config Lshape_tail ''all'' = Inr [(0, 4), (5, 9)] \<and>
   snd (last [(0, 4), (5, 9 :: nat)]) = length Lshape_tail - 2"
proof -
  let ?distances = "[20, 20, 20, 20, 20, 20, 20, 20, 20, 1] :: real list"
  have d: "\<forall>k. 7 \<le> k \<and> k < length Lshape_tail - 1 \<longrightarrow>
           sum_list (map (\<lambda>j. ?distances ! j) [7..<Suc k]) < MIN_SEG_LEN default_config"
  proof (intro allI impI)
    fix k :: nat assume "7 \<le> k \<and> k < length Lshape_tail - 1"
    then have "k = 7 \<or> k = 8 \<or> k = 9" by (auto simp: length_Lshape_tail)
    then show "sum_list (map (\<lambda>j. ?distances ! j) [7..<Suc k]) < MIN_SEG_LEN default_config"
      unfolding default_config_def
      by (elim disjE) (simp_all add: upt_rec)
  qed
  have l: "7 < length Lshape_tail - 1" "length ?distances = length Lshape_tail - 1"
    by (simp_all add: length_Lshape_tail)
  have n: "[(0, 4), (5, 8)] \<noteq> ([] :: (nat \<times> nat) list)" by simp
  have g: "getSegments default_config Lshape_tail ''all'' = Inr [(0, 4), (5, 9)]"
    by (simp add: getSegments_def Lshape_tail_strokes)
  have c: "getDistance (Lshape_tail ! (length Lshape_tail - 2)) (Lshape_tail ! (length Lshape_tail - 1))
             < MIN_SEG_LEN default_config"
    by (simp add: Lshape_tail_def getDistance_horizontal default_config_def)
  show ?thesis
    using tail_extension [where strokeSegments = "[(0, 4), (5, 8)]" and cfg = default_config
        and points = Lshape_tail and mode = "''all''" and distances = ?distances and s = 7
        and e = "length Lshape_tail - 2" and strokes = "[6, 2]" and segs = "[(0, 4), (5, 9)]"]
      d l n g c
    by (simp add: length_Lshape_tail)
qed

subsection \<open>The edit distance of the code is the recurrence\<close>

lemma for_loop_upt_chain:
  "(\<And>k. k < n \<Longrightarrow> body k (T k) = Inr (T (Suc k))) \<Longrightarrow> for_loop body [0..<n] (T 0) = Inr (T n)"
proof (induction n)
  case 0
  then show ?case by simp
next
  case (Suc n)
  then have "for_loop body [0..<n] (T 0) = Inr (T n)" by simp
  then show ?case using Suc.prems [of n]
    by (simp add: for_loop_upt_Suc err_bind_def del: upt_Suc)
qed

lemma edit_distance_Nil2: "edit_distance xs [] = length xs"
  by (cases xs) simp_all

lemma cellv_row0: "c \<le> length s1 \<Longrightarrow> cellv s1 s2 0 c = int c"
  by (simp add: cellv_def edit_distance_Nil2)

lemma cellv_col0: "r \<le> length s2 \<Longrightarrow> cellv s1 s2 r 0 = int r"
  by (simp add: cellv_def)

lemma cellv_step:
  assumes "i < length s2" and "j < length s1"
  shows "cellv s1 s2 (Suc i) (Suc j) =
           min (cellv s1 s2 (Suc i) j + 1)
             (min (cellv s1 s2 i (Suc j) + 1)
                (cellv s1 s2 i j + (if s1 ! j = s2 ! i then 0 else 1)))"
  using assms by (simp add: cellv_def take_Suc_conv_app_nth min_def)

lemma length_matrix0: "length (matrix0 s1 s2) = Suc (length s2) * Suc (length s1)"
  by (simp add: matrix0_def length_concat sum_list_replicate)

lemma length_tab: "length (tab s1 s2 i j) = Suc (length s2) * Suc (length s1)"
  by (simp add: tab_def length_matrix0)

lemma tab_nth:
  "r \<le> length s2 \<Longrightarrow> tab s1 s2 i j ! r = Row (map (entry s1 s2 i j r) [0..<Suc (length s1)])"
  by (simp add: tab_def nth_append del: upt_Suc)

lemma get_item2_tab:
  "r \<le> length s2 \<Longrightarrow> c \<le> length s1 \<Longrightarrow> get_item2 (tab s1 s2 i j) r c = Inr (entry s1 s2 i j r c)"
proof -
  assume r: "r \<le> length s2" and c: "c \<le> length s1"
  have "r < length (tab s1 s2 i j)" using r by (simp add: length_tab)
  then show ?thesis using c
    by (simp add: get_item2_def idx_def err_bind_def tab_nth [OF r] del: upt_Suc)
qed

lemma set_item2_tab:
  assumes "i < length s2" and "j < length s1"
  shows "set_item2 (tab s1 s2 i j) (Suc i) (Suc j) (cellv s1 s2 (Suc i) (Suc j)) =
           Inr (tab s1 s2 i (Suc j))"
proof -
  let ?row = "map (entry s1 s2 i j (Suc i)) [0..<Suc (length s1)]"
  let ?v = "cellv s1 s2 (Suc i) (Suc j)"
  have r: "Suc i \<le> length s2" using assms(1) by simp
  have l: "Suc i < length (tab s1 s2 i j)" using assms(1) by (simp add: length_tab)
  have row: "?row[Suc j := ?v] = map (entry s1 s2 i (Suc j) (Suc i)) [0..<Suc (length s1)]"
    using assms(2) by (auto simp: entry_def nth_list_update intro!: nth_equalityI simp del: upt_Suc)
  have "(tab s1 s2 i j)[Suc i := Row (map (entry s1 s2 i (Suc j) (Suc i)) [0..<Suc (length s1)])]
          = tab s1 s2 i (Suc j)"
  proof (rule nth_equalityI)
    show "length ((tab s1 s2 i j)[Suc i := Row (map (entry s1 s2 i (Suc j) (Suc i)) [0..<Suc (length s1)])])
            = length (tab s1 s2 i (Suc j))"
      by (simp add: length_tab)
  next
    fix k
    assume "k < length ((tab s1 s2 i j)[Suc i := Row (map (entry s1 s2 i (Suc j) (Suc i)) [0..<Suc (length s1)])])"
    then have k: "k < length (tab s1 s2 i j)" by simp
    show "(tab s1 s2 i j)[Suc i := Row (map (entry s1 s2 i (Suc j) (Suc i)) [0..<Suc (length s1)])] ! k
            = tab s1 s2 i (Suc j) ! k"
    proof (cases "k = Suc i")
      case True
      then show ?thesis using l r by (simp add: tab_nth del: upt_Suc)
    next
      case False
      have "tab s1 s2 i j ! k = tab s1 s2 i (Suc j) ! k"
      proof (cases "k \<le> length s2")
        case True
        have "entry s1 s2 i j k = entry s1 s2 i (Suc j) k" using False
          by (auto simp: entry_def fun_eq_iff)
        then show ?thesis using True by (simp add: tab_nth del: upt_Suc)
      next
        case False
        then show ?thesis by (simp add: tab_def nth_append del: upt_Suc)
      qed
      then show ?thesis using False k by simp
    qed
  qed
  then show ?thesis using l assms(2)
    by (simp add: set_item2_def set_item_def idx_def err_bind_def tab_nth [OF r] row del: upt_Suc)
qed

lemma levenshteinCell_tab:
  assumes "i < length s2" and "j < length s1"
  shows "levenshteinCell s1 s2 i j (tab s1 s2 i j) = Inr (tab s1 s2 i (Suc j))"
proof -
  have a: "get_item2 (tab s1 s2 i j) (Suc i) j = Inr (cellv s1 s2 (Suc i) j)"
    using assms by (simp add: get_item2_tab entry_def)
  have b: "get_item2 (tab s1 s2 i j) i (Suc j) = Inr (cellv s1 s2 i (Suc j))"
    using assms by (simp add: get_item2_tab entry_def)
  have c: "get_item2 (tab s1 s2 i j) i j = Inr (cellv s1 s2 i j)"
    using assms by (simp add: get_item2_tab entry_def)
  show ?thesis
    using assms set_item2_tab [OF assms]
    by (auto simp: levenshteinCell_def idx_def err_bind_def a b c cellv_step)
qed

lemma tab_row_end: "tab s1 s2 i (length s1) = tab s1 s2 (Suc i) 0"
proof -
  have "entry s1 s2 i (length s1) r c = entry s1 s2 (Suc i) 0 r c" if "c \<le> length s1" for r c
    using that by (auto simp: entry_def)
  then show ?thesis by (simp add: tab_def del: upt_Suc)
qed

lemma levenshtein_row:
  assumes "i < length s2"
  shows "for_loop (levenshteinCell s1 s2 i) [0..<length s1] (tab s1 s2 i 0) = Inr (tab s1 s2 (Suc i) 0)"
  using for_loop_upt_chain [of "length s1" "levenshteinCell s1 s2 i" "tab s1 s2 i"]
    levenshteinCell_tab [OF assms] by (simp add: tab_row_end)

lemma levenshtein_rows:
  "for_loop (\<lambda>i. for_loop (levenshteinCell s1 s2 i) [0..<length s1]) [0..<length s2] (tab s1 s2 0 0)
     = Inr (tab s1 s2 (length s2) 0)"
  using for_loop_upt_chain [of "length s2" "\<lambda>i. for_loop (levenshteinCell s1 s2 i) [0..<length s1]"
      "\<lambda>i. tab s1 s2 i 0"] levenshtein_row by blast

lemma map_int_upt_shift: "map int [k..<k + n] = map (\<lambda>c. int (k + c)) [0..<n]"
  by (induction n) simp_all

lemma init_tab_step:
  assumes "k \<le> length s2"
  shows "set_item (init_tab s1 s2 k) k (Row (map int [k..<k + length s1 + 1])) =
           Inr (init_tab s1 s2 (Suc k))"
proof -
  have k: "k < length (matrix0 s1 s2)"
    using assms by (simp add: length_matrix0 less_Suc_eq_le trans_le_add1)
  have l: "k < length (init_tab s1 s2 k)" using k by (simp add: init_tab_def)
  have "(drop k (matrix0 s1 s2))[0 := v] = v # drop (Suc k) (matrix0 s1 s2)" for v
    using k by (simp add: Cons_nth_drop_Suc [symmetric])
  moreover have "[0..<Suc k] = [0..<k] @ [k]" by simp
  ultimately have "(init_tab s1 s2 k)[k := Row (map (\<lambda>c. int (k + c)) [0..<Suc (length s1)])]
          = init_tab s1 s2 (Suc k)"
    by (simp add: init_tab_def list_update_append del: upt_Suc)
  moreover have "map int [k..<k + length s1 + 1] = map (\<lambda>c. int (k + c)) [0..<Suc (length s1)]"
    using map_int_upt_shift [of k "Suc (length s1)"] by simp
  ultimately show ?thesis using l by (simp add: set_item_def)
qed

lemma init_tab_final: "init_tab s1 s2 (Suc (length s2)) = tab s1 s2 0 0"
proof -
  have "entry s1 s2 0 0 r c = int (r + c)" if "r \<le> length s2" "c \<le> length s1" for r c
    using that by (auto simp: entry_def cellv_row0 cellv_col0)
  then show ?thesis by (simp add: init_tab_def tab_def del: upt_Suc)
qed

lemma levenshtein_init:
  "for_loop (\<lambda>i matrix. set_item matrix i (Row (map int [i..<i + length s1 + 1])))
     [0..<length s2 + 1] (matrix0 s1 s2) = Inr (tab s1 s2 0 0)"
proof -
  have "for_loop (\<lambda>i matrix. set_item matrix i (Row (map int [i..<i + length s1 + 1])))
          [0..<Suc (length s2)] (init_tab s1 s2 0) = Inr (init_tab s1 s2 (Suc (length s2)))"
    by (rule for_loop_upt_chain [where T = "init_tab s1 s2"], rule init_tab_step) simp
  moreover have "init_tab s1 s2 0 = matrix0 s1 s2" by (simp add: init_tab_def)
  moreover have "[0..<length s2 + 1] = [0..<Suc (length s2)]" by simp
  ultimately show ?thesis by (simp only: init_tab_final)
qed

lemma levenshteinDistance_edit_distance:
  "levenshteinDistance s1 s2 = Inr (int (edit_distance (rev s1) (rev s2)))"
proof -
  have "get_item2 (tab s1 s2 (length s2) 0) (length s2) (length s1) = Inr (cellv s1 s2 (length s2) (length s1))"
    by (simp add: get_item2_tab entry_def)
  then show ?thesis
    unfolding levenshteinDistance_def Let_def matrix0_def [symmetric] levenshtein_init
      err_bind_def sum.case levenshtein_rows
    by (simp add: cellv_def)
qed

subsection \<open>The recurrence is a metric\<close>

lemma edit_distance_refl: "edit_distance xs xs = 0"
  by (induction xs) simp_all

lemma edit_distance_sym: "edit_distance xs ys = edit_distance ys xs"
proof (induction xs ys rule: edit_distance.induct)
  case (1 ys)
  then show ?case by (simp add: edit_distance_Nil2)
next
  case (2 x xs)
  then show ?case by simp
next
  case (3 x xs y ys)
  then show ?case by (simp add: min.commute min.left_commute eq_commute [of x y])
qed

lemma edit_distance_le_sum: "edit_distance xs ys \<le> length xs + length ys"
  by (induction xs ys rule: edit_distance.induct) (auto simp: min_def)

lemma length_le_edit_distance: "length ys \<le> length xs + edit_distance xs ys"
  by (induction xs ys rule: edit_distance.induct) (auto simp: min_def)

lemma min3_cases: "min p (min q r) = p \<or> min p (min q r) = q \<or> min p (min q (r::nat)) = r"
  by (auto simp: min_def)

lemma edit_distance_Cons_cases:
  "edit_distance (x # xs) (y # ys) = edit_distance xs (y # ys) + 1 \<or>
   edit_distance (x # xs) (y # ys) = edit_distance (x # xs) ys + 1 \<or>
   edit_distance (x # xs) (y # ys) = edit_distance xs ys + (if x = y then 0 else 1)"
  using min3_cases [of "edit_distance xs (y # ys) + 1" "edit_distance (x # xs) ys + 1"
      "edit_distance xs ys + (if x = y then 0 else 1)"]
  by (simp only: edit_distance.simps)

lemma edit_distance_triangle:
  "edit_distance a c \<le> edit_distance a b + edit_distance b c"
proof (induction "length a + length b + length c" arbitrary: a b c rule: less_induct)
  case less
  show ?case
  proof (cases a)
    case Nil
    then show ?thesis using length_le_edit_distance [of c b] by simp
  next
    case a: (Cons x a')
    show ?thesis
    proof (cases c)
      case Nil
      then show ?thesis
        using length_le_edit_distance [of a b] edit_distance_sym [of a b]
        by (simp add: edit_distance_Nil2)
    next
      case c: (Cons z c')
      show ?thesis
      proof (cases b)
        case Nil
        then show ?thesis using edit_distance_le_sum [of a c] by (simp add: edit_distance_Nil2)
      next
        case b: (Cons y b')
        have ac1: "edit_distance a c \<le> edit_distance a' c + 1"
          and ac2: "edit_distance a c \<le> edit_distance a c' + 1"
          and ac3: "edit_distance a c \<le> edit_distance a' c' + (if x = z then 0 else 1)"
          by (simp_all add: a c)
        consider (del) "edit_distance a b = edit_distance a' b + 1"
          | (ins) "edit_distance a b = edit_distance a b' + 1"
          | (sub) "edit_distance a b = edit_distance a' b' + (if x = y then 0 else 1)"
          using edit_distance_Cons_cases [of x a' y b'] unfolding a b by blast
        then show ?thesis
        proof cases
          case del
          have "edit_distance a' c \<le> edit_distance a' b + edit_distance b c"
            by (rule less) (simp add: a)
          with del ac1 show ?thesis by linarith
        next
          case ins
          consider (del2) "edit_distance b c = edit_distance b' c + 1"
            | (ins2) "edit_distance b c = edit_distance b c' + 1"
            | (sub2) "edit_distance b c = edit_distance b' c' + (if y = z then 0 else 1)"
            using edit_distance_Cons_cases [of y b' z c'] unfolding b c by blast
          then show ?thesis
          proof cases
            case del2
            have "edit_distance a c \<le> edit_distance a b' + edit_distance b' c"
              by (rule less) (simp add: b)
            with ins del2 show ?thesis by linarith
          next
            case ins2
            have "edit_distance a c' \<le> edit_distance a b + edit_distance b c'"
              by (rule less) (simp add: c)
            with ins2 ac2 show ?thesis by linarith
          next
            case sub2
            have "edit_distance a c' \<le> edit_distance a b' + edit_distance b' c'"
              by (rule less) (simp add: b c)
            with ins sub2 ac2 show ?thesis by linarith
          qed
        next
          case sub
          consider (del2) "edit_distance b c = edit_distance b' c + 1"
            | (ins2) "edit_distance b c = edit_distance b c' + 1"
            | (sub2) "edit_distance b c = edit_distance b' c' + (if y = z then 0 else 1)"
            using edit_distance_Cons_cases [of y b' z c'] unfolding b c by blast
          then show ?thesis
          proof cases
            case del2
            have "edit_distance a' c \<le> edit_distance a' b' + edit_distance b' c"
              by (rule less) (simp add: a b)
            with sub del2 ac1 show ?thesis by linarith
          next
            case ins2
            have "edit_distance a c' \<le> edit_distance a b + edit_distance b c'"
              by (rule less) (simp add: c)
            with ins2 ac2 show ?thesis by linarith
          next
            case sub2
            have "edit_distance a' c' \<le> edit_distance a' b' + edit_distance b' c'"
              by (rule less) (simp add: a b c)
            with sub sub2 ac3 show ?thesis by (auto split: if_splits)
          qed
        qed
      qed
    qed
  qed
qed

lemma kitten_sitting: "edit_distance (rev ''kitten'') (rev ''sitting'') = 3"
  by code_simp

text \<open>
  C4 (edit distance metric laws). \<open>levenshteinDistance\<close> returns 0 on two equal
  sequences, the same result when its arguments are exchanged, results that satisfy
  the triangle inequality, and 3 on \<open>kitten\<close> and \<open>sitting\<close>; it raises on no input.
\<close>

theorem levenshteinDistance_metric:
  "levenshteinDistance s s = Inr 0 \<and>
   levenshteinDistance s1 s2 = levenshteinDistance s2 s1 \<and>
   (\<exists>d12 d13 d32. levenshteinDistance s1 s2 = Inr d12 \<and> levenshteinDistance s1 s3 = Inr d13 \<and>
        levenshteinDistance s3 s2 = Inr d32 \<and> d12 \<le> d13 + d32) \<and>
   levenshteinDistance ''kitten'' ''sitting'' = Inr 3"
proof -
  have "int (edit_distance (rev s1) (rev s2))
          \<le> int (edit_distance (rev s1) (rev s3)) + int (edit_distance (rev s3) (rev s2))"
    using edit_distance_triangle [of "rev s1" "rev s2" "rev s3"] by linarith
  then show ?thesis
    by (simp add: levenshteinDistance_edit_distance edit_distance_refl kitten_sitting
        edit_distance_sym [of "rev s1" "rev s2"])
qed

subsection \<open>The matcher on joined templates\<close>

lemma add_distance_groups:
  assumes "map_of distances = groups_of strokes ys"
  shows "\<exists>distances'. add_distance strokes g distances = Inr distances' \<and>
           map_of distances' = groups_of strokes (ys @ [g])"
proof -
  let ?k = "dist_to strokes g"
  have l: "levenshteinDistance strokes g = Inr ?k"
    by (simp add: levenshteinDistance_edit_distance dist_to_def)
  show ?thesis
  proof (cases "map_of distances ?k")
    case None
    then have "add_distance strokes g distances = Inr (AList.update ?k [g] distances)"
      by (simp add: add_distance_def l err_bind_def)
    moreover have "map_of (AList.update ?k [g] distances) = groups_of strokes (ys @ [g])"
      using None assms by (auto simp: AList.update_conv' groups_of_def fun_eq_iff split: if_splits)
    ultimately show ?thesis by blast
  next
    case (Some l0)
    then have "add_distance strokes g distances = Inr (AList.update ?k (l0 @ [g]) distances)"
      by (simp add: add_distance_def l err_bind_def)
    moreover have "map_of (AList.update ?k (l0 @ [g]) distances) = groups_of strokes (ys @ [g])"
      using Some assms by (auto simp: AList.update_conv' groups_of_def fun_eq_iff split: if_splits)
    ultimately show ?thesis by blast
  qed
qed

lemma for_loop_add_distance:
  "map_of distances = groups_of strokes ys \<Longrightarrow>
   \<exists>distances'. for_loop (add_distance strokes) gs distances = Inr distances' \<and>
           map_of distances' = groups_of strokes (ys @ gs)"
proof (induction gs arbitrary: distances ys)
  case Nil
  then show ?case by simp
next
  case (Cons g gs)
  from add_distance_groups [OF Cons.prems, of g] obtain d1 where
    d1: "add_distance strokes g distances = Inr d1" "map_of d1 = groups_of strokes (ys @ [g])"
    by blast
  from Cons.IH [OF d1(2)] show ?case using d1(1) by (simp add: err_bind_def)
qed

lemma fold_min_Min: "fold min xs (x :: int) = Min (set (x # xs))"
  by (rule Min.set_eq_fold [symmetric])

lemma dom_groups_of: "dom (groups_of strokes gs) = dist_to strokes ` set gs"
  by (auto simp: groups_of_def dom_def filter_empty_conv split: if_splits)

text \<open>
  What the matcher computes from a non-empty list of distinct joined templates: with
  \<open>m\<close> the smallest distance and \<open>W\<close> the templates at that distance, the one element
  of \<open>W\<close> converted by \<open>int\<close> when \<open>W\<close> has one element and \<open>m\<close> is within tolerance, and
  \<open>None\<close> otherwise. It depends on the set of the templates only.
\<close>

lemma matchJoined_set:
  assumes "distinct gs" and "gs \<noteq> []"
  shows "matchJoined strokes gs tolerance =
           (let m = Min (dist_to strokes ` set gs);
                W = {g \<in> set gs. dist_to strokes g = m}
            in if card W = 1 \<and> m \<le> tolerance
               then err_bind (py_int (the_elem W)) (\<lambda>n. Inr (Some [n]))
               else Inr None)"
proof -
  have "map_of [] = groups_of strokes []" by (simp add: groups_of_def fun_eq_iff)
  from for_loop_add_distance [OF this, of gs] obtain D where
    D: "for_loop (add_distance strokes) gs [] = Inr D" "map_of D = groups_of strokes gs"
    by auto
  have keys: "set (map fst D) = dist_to strokes ` set gs"
    using D(2) dom_groups_of [of strokes gs] by (simp add: dom_map_of_conv_image_fst [symmetric])
  then have "D \<noteq> []" using assms(2) by auto
  then obtain k ks where ks: "map fst D = k # ks" by (cases D) auto
  define m where "m = Min (dist_to strokes ` set gs)"
  have pm: "py_min (map fst D) = Inr m"
    using keys by (simp add: ks fold_min_Min m_def)
  have "m \<in> dist_to strokes ` set gs"
    unfolding m_def using assms(2) by (intro Min_in) auto
  then have ne: "filter (\<lambda>g. dist_to strokes g = m) gs \<noteq> []"
    by (auto simp: filter_empty_conv)
  then have look: "map_of D m = Some (filter (\<lambda>g. dist_to strokes g = m) gs)"
    by (simp add: D(2) groups_of_def)
  define W where "W = {g \<in> set gs. dist_to strokes g = m}"
  have len: "length (filter (\<lambda>g. dist_to strokes g = m) gs) = card W"
    using assms(1) by (simp add: distinct_length_filter W_def Int_def conj_commute)
  have setW: "set (filter (\<lambda>g. dist_to strokes g = m) gs) = W" by (auto simp: W_def)
  have one: "filter (\<lambda>g. dist_to strokes g = m) gs = [the_elem W]" if "card W = 1"
  proof -
    from that len obtain g where g: "filter (\<lambda>g. dist_to strokes g = m) gs = [g]"
      by (cases "filter (\<lambda>g. dist_to strokes g = m) gs") auto
    then have "W = {g}" using setW by auto
    then show ?thesis using g by simp
  qed
  show ?thesis
    unfolding matchJoined_def D(1) Let_def m_def [symmetric] W_def [symmetric]
    using pm look len one by (auto simp: err_bind_def split: sum.splits)
qed

lemma matchJoined_order:
  assumes "distinct gs1" and "distinct gs2" and "set gs1 = set gs2"
  shows "matchJoined strokes gs1 tolerance = matchJoined strokes gs2 tolerance"
proof (cases "gs1 = []")
  case True
  then show ?thesis using assms(3) by simp
next
  case False
  then have "gs2 \<noteq> []" using assms(3) by auto
  then show ?thesis using False assms by (simp add: matchJoined_set)
qed

text \<open>
  On joined templates a tie at the smallest distance gives \<open>None\<close>, and a unique closest
  template is accepted exactly when its distance is within tolerance.
\<close>

lemma matchJoined_tie:
  assumes "distinct gs" and "g1 \<in> set gs" and "g2 \<in> set gs" and "g1 \<noteq> g2"
    and "\<forall>g \<in> set gs. dist_to strokes g1 \<le> dist_to strokes g"
    and "dist_to strokes g2 = dist_to strokes g1"
  shows "matchJoined strokes gs tolerance = Inr None"
proof -
  have ne: "gs \<noteq> []" using assms(2) by auto
  have m: "Min (dist_to strokes ` set gs) = dist_to strokes g1"
    using assms(2,5) by (intro Min_eqI) auto
  have "{g1, g2} \<subseteq> {g \<in> set gs. dist_to strokes g = dist_to strokes g1}"
    using assms by auto
  then have "card {g1, g2} \<le> card {g \<in> set gs. dist_to strokes g = dist_to strokes g1}"
    by (intro card_mono) auto
  then have "card {g \<in> set gs. dist_to strokes g = dist_to strokes g1} \<noteq> 1"
    using assms(4) by simp
  then show ?thesis by (simp add: matchJoined_set [OF assms(1) ne] m)
qed

lemma matchJoined_unique:
  assumes "distinct gs" and "g1 \<in> set gs"
    and "\<forall>g \<in> set gs. g \<noteq> g1 \<longrightarrow> dist_to strokes g1 < dist_to strokes g"
  shows "matchJoined strokes gs tolerance =
           (if dist_to strokes g1 \<le> tolerance
            then err_bind (py_int g1) (\<lambda>n. Inr (Some [n])) else Inr None)"
proof -
  have ne: "gs \<noteq> []" using assms(2) by auto
  have m: "Min (dist_to strokes ` set gs) = dist_to strokes g1"
    using assms(2,3) by (intro Min_eqI) (auto simp: less_imp_le)
  have "{g \<in> set gs. dist_to strokes g = dist_to strokes g1} = {g1}"
    using assms(2,3) by auto
  then show ?thesis by (simp add: matchJoined_set [OF assms(1) ne] m)
qed

subsection \<open>The matcher on lists of tokens\<close>

text \<open>
  \<open>findClosestMatchingGesture\<close> joins the candidate and every template with
  \<open>''.join\<close>: on a non-empty candidate of ints, as \<open>getGesture\<close> returns them, the join
  raises TypeError whatever the templates and the tolerance.
\<close>

lemma findClosestMatchingGesture_int_candidate:
  "strokes \<noteq> [] \<Longrightarrow> gestureList \<noteq> [] \<Longrightarrow>
   findClosestMatchingGesture (map PInt strokes) gestureList tolerance = Inl TypeError"
  by (cases strokes) (simp_all add: findClosestMatchingGesture_def err_bind_def)

text \<open>
  On one-character strings the joins succeed: a tie at the smallest distance and a
  smallest distance above the tolerance both give \<open>None\<close>.
\<close>

lemma tie_on_string_tokens:
  "findClosestMatchingGesture [PStr ''6''] [[PStr ''2''], [PStr ''4'']] maxsize = Inr None"
  by code_simp

lemma tolerance_below_on_string_tokens:
  "findClosestMatchingGesture [PStr ''6'', PStr ''2'']
       [[PStr ''6'', PStr ''4''], [PStr ''2'', PStr ''4'', PStr ''8'']] 0 = Inr None"
  by code_simp

text \<open>
  C1 (end-to-end scenario). On the L-shape drawn right and then down with legs of 100
  pixels, \<open>getGesture\<close> in mode \<open>all\<close> returns \<open>[RIGHT, DOWN]\<close>, that is \<open>[6, 2]\<close>. The
  matcher called on \<open>[6, 2]\<close> and the templates \<open>[[6, 2], [2, 4]]\<close> raises TypeError;
  called on the same tokens as one-character strings it returns \<open>[62]\<close>, the joined
  template converted by \<open>int\<close>.
\<close>

theorem end_to_end_scenario:
  "getGesture default_config Lshape ''all'' = Inr [RIGHT, DOWN] \<and>
   findClosestMatchingGesture (map PInt [RIGHT, DOWN]) [map PInt [6, 2], map PInt [2, 4]] maxsize
     = Inl TypeError \<and>
   findClosestMatchingGesture [PStr ''6'', PStr ''2'']
       [[PStr ''6'', PStr ''2''], [PStr ''2'', PStr ''4'']] maxsize
     = Inr (Some [62])"
proof -
  have a: "getGesture default_config Lshape ''all'' = Inr [RIGHT, DOWN]"
    by (simp add: getGesture_def Lshape_strokes RIGHT_def DOWN_def)
  have b: "findClosestMatchingGesture (map PInt [RIGHT, DOWN]) [map PInt [6, 2], map PInt [2, 4]] maxsize
     = Inl TypeError"
    by (simp add: findClosestMatchingGesture_def err_bind_def)
  have c: "findClosestMatchingGesture [PStr ''6'', PStr ''2'']
       [[PStr ''6'', PStr ''2''], [PStr ''2'', PStr ''4'']] maxsize
     = Inr (Some [62])"
    by code_simp
  from a b c show ?thesis by simp
qed

text \<open>
  C2 (matcher tie rejection). The templates \<open>[2]\<close> and \<open>[4]\<close> are both at distance 1
  from the candidate \<open>[6]\<close>; the matcher called on them raises TypeError.
\<close>

theorem tie_on_int_tokens:
  "levenshteinDistance [6 :: int] [2] = Inr 1 \<and>
   levenshteinDistance [6 :: int] [4] = Inr 1 \<and>
   findClosestMatchingGesture [PInt 6] [[PInt 2], [PInt 4]] maxsize = Inl TypeError"
proof -
  have a: "levenshteinDistance [6 :: int] [2] = Inr 1" by code_simp
  have b: "levenshteinDistance [6 :: int] [4] = Inr 1" by code_simp
  have c: "findClosestMatchingGesture [PInt 6] [[PInt 2], [PInt 4]] maxsize = Inl TypeError"
    by (simp add: findClosestMatchingGesture_def err_bind_def)
  from a b c show ?thesis by simp
qed

text \<open>
  C3 (matcher tolerance boundary). The template \<open>[6, 4]\<close> is at distance 1 from the
  candidate \<open>[6, 2]\<close> and the template \<open>[2, 4, 8]\<close> at distance 3; the matcher called on
  them raises TypeError with tolerance 1 and with tolerance 0, and called with
  tolerance 1 on the same tokens as one-character strings it returns \<open>[64]\<close>.
\<close>

theorem tolerance_boundary_on_int_tokens:
  "levenshteinDistance [6 :: int, 2] [6, 4] = Inr 1 \<and>
   levenshteinDistance [6 :: int, 2] [2, 4, 8] = Inr 3 \<and>
   findClosestMatchingGesture [PInt 6, PInt 2] [[PInt 6, PInt 4], [PInt 2, PInt 4, PInt 8]] 1
     = Inl TypeError \<and>
   findClosestMatchingGesture [PInt 6, PInt 2] [[PInt 6, PInt 4], [PInt 2, PInt 4, PInt 8]] 0
     = Inl TypeError \<and>
   findClosestMatchingGesture [PStr ''6'', PStr ''2'']
       [[PStr ''6'', PStr ''4''], [PStr ''2'', PStr ''4'', PStr ''8'']] 1
     = Inr (Some [64])"
proof -
  have a: "levenshteinDistance [6 :: int, 2] [6, 4] = Inr 1" by code_simp
  have b: "levenshteinDistance [6 :: int, 2] [2, 4, 8] = Inr 3" by code_simp
  have c: "findClosestMatchingGesture [PInt 6, PInt 2] [[PInt 6, PInt 4], [PInt 2, PInt 4, PInt 8]] t
     = Inl TypeError" for t
    by (simp add: findClosestMatchingGesture_def err_bind_def)
  have d: "findClosestMatchingGesture [PStr ''6'', PStr ''2'']
       [[PStr ''6'', PStr ''4''], [PStr ''2'', PStr ''4'', PStr ''8'']] 1
     = Inr (Some [64])"
    by code_simp
  from a b c d show ?thesis by simp
qed

end
